theory Spec2Isabelle
  imports Main "HOL-Library.Sublist"
begin

section \<open>Strings, Python string primitives and the regular expressions of the source\<close>

text \<open>
  A Python \<open>str\<close> is a sequence of code points. The model writes it as a \<open>string\<close>, one
  \<open>char\<close> per code point, so it covers the documents whose code points are below 256; the
  program never looks at a code point above the ASCII range.
\<close>

definition TAB :: char where "TAB = CHR 0x09"
definition NL :: char where "NL = CHR 0x0A"
definition CR :: char where "CR = CHR 0x0D"
definition BACKSLASH :: char where "BACKSLASH = CHR 0x5C"

text \<open>\<open>s.find(p)\<close>: the lowest index at which \<open>p\<close> occurs in \<open>s\<close>, or \<open>-1\<close>.\<close>

fun str_find :: "string \<Rightarrow> string \<Rightarrow> int" where
  "str_find [] p = (if p = [] then 0 else -1)"
| "str_find (c # cs) p =
     (if prefix p (c # cs) then 0
      else (let r = str_find cs p in if r < 0 then -1 else r + 1))"

text \<open>\<open>s[k:]\<close> for an integer \<open>k\<close>; a negative \<open>k\<close> counts from the end.\<close>

definition slice_from :: "int \<Rightarrow> string \<Rightarrow> string" where
  "slice_from k s =
     (if 0 \<le> k then drop (nat k) s else drop (nat (int (length s) + k)) s)"

text \<open>
  The patterns given to \<open>re.search\<close> are built from literals, \<open>.\<close>, \<open>.*\<close>, \<open>\t*\<close>, \<open>^\<close> and
  \<open>$\<close> only. Every pattern starts with \<open>^\<close> and no flag is set, so a search succeeds only
  at position 0 and is a match from the start of the string. The matchers below are
  written in continuation style and follow the backtracking order of the \<open>re\<close> engine:
  a starred item first takes as many characters as it can and gives them back one at a
  time until the rest of the pattern matches.
\<close>

type_synonym 'a matcher = "string \<Rightarrow> 'a option"

definition lit :: "string \<Rightarrow> 'a matcher \<Rightarrow> 'a matcher" where
  "lit p k s = (if prefix p s then k (drop (length p) s) else None)"

text \<open>\<open>.\<close> matches one character other than a newline.\<close>

definition dot :: "(char \<Rightarrow> 'a matcher) \<Rightarrow> 'a matcher" where
  "dot k s = (case s of [] \<Rightarrow> None | c # cs \<Rightarrow> if c = NL then None else k c cs)"

fun star :: "(char \<Rightarrow> bool) \<Rightarrow> (string \<Rightarrow> 'a matcher) \<Rightarrow> 'a matcher" where
  "star P k [] = k [] []"
| "star P k (c # cs) =
     (if P c then
        (case star P (\<lambda>m. k (c # m)) cs of
           Some r \<Rightarrow> Some r
         | None \<Rightarrow> k [] (c # cs))
      else k [] (c # cs))"

definition any_star :: "(string \<Rightarrow> 'a matcher) \<Rightarrow> 'a matcher" where
  "any_star = star (\<lambda>c. c \<noteq> NL)"

definition tab_star :: "(string \<Rightarrow> 'a matcher) \<Rightarrow> 'a matcher" where
  "tab_star = star (\<lambda>c. c = TAB)"

text \<open>\<open>$\<close> matches at the end of the string and before a newline that ends the string.\<close>

definition eos :: "'a option \<Rightarrow> 'a matcher" where
  "eos r s = (if s = [] \<or> s = [NL] then r else None)"

text \<open>\<open>^(\t*)(.*)$\<close>, giving groups 1 and 2.\<close>

definition line_re :: "string \<Rightarrow> (string \<times> string) option" where
  "line_re = tab_star (\<lambda>g1. any_star (\<lambda>g2. eos (Some (g1, g2))))"

text \<open>\<open>^(\t*)- (```)\<close> and \<open>^(\t*)  (```)\<close>; only the success of the match is used.\<close>

definition parent_code_block_re :: "string \<Rightarrow> unit option" where
  "parent_code_block_re = tab_star (\<lambda>g1. lit ''- ```'' (\<lambda>_. Some ()))"

definition child_code_block_re :: "string \<Rightarrow> unit option" where
  "child_code_block_re = tab_star (\<lambda>g1. lit ''  ```'' (\<lambda>_. Some ()))"

text \<open>\<open>(^.*\[.*\]\()(../)assets/(.*)\)\<close>, giving groups 1, 2 and 3.\<close>

definition asset_re :: "string \<Rightarrow> (string \<times> string \<times> string) option" where
  "asset_re =
     any_star (\<lambda>a. lit ''['' (any_star (\<lambda>b. lit ''](''
       (dot (\<lambda>c1. dot (\<lambda>c2. lit ''/'' (lit ''assets/''
         (any_star (\<lambda>g3. lit '')''
           (\<lambda>_. Some (a @ ''['' @ b @ ''](''  , [c1, c2] @ ''/'', g3)))))))))))"

text \<open>
  \<open>(^.*){{renderer :drawio, (.*.svg)}}\<close>, giving groups 1 and 2. A brace that does not
  open a repetition count is a literal brace for \<open>re\<close>.
\<close>

definition drawio_re :: "string \<Rightarrow> (string \<times> string) option" where
  "drawio_re =
     any_star (\<lambda>g1. lit ''{{renderer :drawio, ''
       (any_star (\<lambda>m. dot (\<lambda>c. lit ''svg'' (lit ''}}''
         (\<lambda>_. Some (g1, m @ [c] @ ''svg'')))))))"

text \<open>\<open>(^\t*)- WORD (.*)$\<close> for a task word, giving groups 1 and 2.\<close>

definition checkbox_re :: "string \<Rightarrow> string \<Rightarrow> (string \<times> string) option" where
  "checkbox_re word =
     tab_star (\<lambda>g1. lit (''- '' @ word @ '' '')
       (any_star (\<lambda>g2. eos (Some (g1, g2)))))"

section \<open>Reading the document\<close>

text \<open>
  The file is opened in text mode, so \<open>\r\n\<close> and a lone \<open>\r\<close> arrive as \<open>\n\<close>, and
  \<open>readlines\<close> cuts the text after every newline.
\<close>

fun translate_newlines :: "string \<Rightarrow> string" where
  "translate_newlines [] = []"
| "translate_newlines [c] = [if c = CR then NL else c]"
| "translate_newlines (c # d # ds) =
     (if c = CR \<and> d = NL then NL # translate_newlines ds
      else (if c = CR then NL else c) # translate_newlines (d # ds))"

fun split_lines :: "string \<Rightarrow> string \<Rightarrow> string list" where
  "split_lines acc [] = (if acc = [] then [] else [acc])"
| "split_lines acc (c # cs) =
     (if c = NL then (acc @ [c]) # split_lines [] cs else split_lines (acc @ [c]) cs)"

definition readlines :: "string \<Rightarrow> string list" where
  "readlines text = split_lines [] (translate_newlines text)"

section \<open>Line classification\<close>

datatype LineType = TITLE | LIST | QUOTE | CODE_BLOCK_MARKER | CODE | EMPTY | TEXT

datatype LineHierarchy = PARENT | CHILD

text \<open>
  How a run can end early: \<open>SystemExit\<close> is the classifier's \<open>exit(1)\<close>, \<open>IndexError\<close> the
  read of a character that is not there, \<open>CopyError\<close> an asset that \<open>shutil.copy\<close> cannot
  copy.
\<close>

datatype error = SystemExit int | IndexError | CopyError

text \<open>\<open>s[i]\<close> for a natural \<open>i\<close>.\<close>

definition char_at :: "string \<Rightarrow> nat \<Rightarrow> error + char" where
  "char_at s i = (if i < length s then Inr (s ! i) else Inl IndexError)"

definition get_line_type :: "string \<Rightarrow> string \<Rightarrow> error + (LineType \<times> LineHierarchy)" where
  "get_line_type line line_content_raw =
     (case char_at line_content_raw 0 of
        Inl e \<Rightarrow> Inl e
      | Inr L1_tag \<Rightarrow>
         (let L2_tag = (if length line_content_raw > 2
                        then Some (line_content_raw ! 2) else None)
          in if L1_tag = CHR ''#'' then Inr (TITLE, PARENT)
             else if L2_tag = None then
               (if L1_tag = CHR ''-'' then Inr (EMPTY, PARENT)
                else if L1_tag = CHR '' '' then Inr (EMPTY, CHILD)
                else Inl (SystemExit 1))
             else if L2_tag = Some (CHR '' '') then Inr (TEXT, CHILD)
             else if L2_tag = Some (CHR ''>'') then
               (if L1_tag = CHR ''-'' then Inr (QUOTE, PARENT) else Inr (QUOTE, CHILD))
             else if L2_tag = Some (CHR ''#'') then
               (if L1_tag = CHR ''-'' then Inr (TITLE, PARENT)
                else if L1_tag = CHR '' '' then Inr (TEXT, CHILD)
                else Inl (SystemExit 1))
             else if L2_tag = Some (CHR ''`'') then
               (if parent_code_block_re line \<noteq> None then Inr (CODE_BLOCK_MARKER, PARENT)
                else if child_code_block_re line \<noteq> None then Inr (CODE_BLOCK_MARKER, CHILD)
                else if L1_tag = CHR ''-'' then Inr (LIST, PARENT)
                else if L1_tag = CHR '' '' then Inr (TEXT, CHILD)
                else Inl (SystemExit 1))
             else
               (if L1_tag = CHR ''-'' then Inr (LIST, PARENT) else Inr (TEXT, CHILD))))"

record line_info =
  li_content :: string
  li_indent :: int
  li_type :: LineType
  li_hierarchy :: LineHierarchy

text \<open>
  The first loop of \<open>export_file_to_folder\<close>: a line the pattern does not match is
  skipped, the first line the classifier rejects ends the run.
\<close>

fun parse_lines :: "string list \<Rightarrow> error + line_info list" where
  "parse_lines [] = Inr []"
| "parse_lines (line # rest) =
     (case line_re line of
        None \<Rightarrow> parse_lines rest
      | Some (g1, line_content_raw) \<Rightarrow>
         (case get_line_type line line_content_raw of
            Inl e \<Rightarrow> Inl e
          | Inr (line_type, line_hierarchy) \<Rightarrow>
             (case parse_lines rest of
                Inl e \<Rightarrow> Inl e
              | Inr ls \<Rightarrow>
                 Inr (\<lparr>li_content = line_content_raw, li_indent = int (length g1),
                       li_type = line_type, li_hierarchy = line_hierarchy\<rparr> # ls))))"

section \<open>The conversion loop\<close>

text \<open>
  \<open>event\<close> and the field \<open>trace\<close> are not variables of the source: the trace gets one
  entry for every iteration of the second loop, so that what happened to line \<open>i\<close> can be
  read at position \<open>i\<close>. \<open>Skipped\<close> is an iteration taken by the skip counter;
  \<open>Processed b t c\<close> is any other iteration, with the code-block flag \<open>b\<close> after the
  directive chain, the target indentation \<open>t\<close> computed for the line, and \<open>c\<close> the
  content to which the final newline and the tabs are added (\<open>None\<close> when the iteration
  ends in \<open>continue\<close> and emits nothing).
\<close>

datatype event = Skipped | Processed bool int "string option"

text \<open>
  The local variables of \<open>export_file_to_folder\<close>. \<open>imported\<close> lists the calls of
  \<open>import_asset\<close> that returned, as (file name, subdirectory); the two directory
  arguments are the same in every call and are left out.
\<close>

record state =
  lines :: "line_info list"
  target_line_indent :: int
  cur_list_depth :: int
  last_target_line_indent :: int
  traversing_code_block :: bool
  lines_to_skip :: nat
  content :: string
  output_content :: string
  imported :: "(string \<times> string) list"
  trace :: "event list"

definition init_state :: "line_info list \<Rightarrow> state" where
  "init_state ls =
     \<lparr>lines = ls, target_line_indent = 0, cur_list_depth = 0,
      last_target_line_indent = 0, traversing_code_block = False, lines_to_skip = 0,
      content = [], output_content = [], imported = [], trace = []\<rparr>"

text \<open>
  The file system is a parameter \<open>fs\<close>: \<open>fs subdir filename\<close> says whether the asset
  can be copied. \<open>import_asset\<close> raises when it cannot.
\<close>

definition import_asset ::
  "(string \<Rightarrow> string \<Rightarrow> bool) \<Rightarrow> string \<Rightarrow> string \<Rightarrow> state \<Rightarrow> error + state" where
  "import_asset fs filename subdir s =
     (if fs subdir filename then Inr (s\<lparr>imported := imported s @ [(filename, subdir)]\<rparr>)
      else Inl CopyError)"

text \<open>
  Lines 169 to 256: what the \<open>if\<close>/\<open>elif\<close> chain decides for a line. \<open>Import f d c\<close> asks
  for asset \<open>f\<close> from subdirectory \<open>d\<close> and sets the content to \<open>c\<close>; \<open>Rewrite c\<close> sets the
  content to \<open>c\<close>; \<open>Keep\<close> is a branch whose pattern does not match, or no branch at all.
\<close>

datatype action = Toggle | Import string string string | Rewrite string | Keep

definition directive_of :: "line_info \<Rightarrow> action" where
  "directive_of line_info =
     (let c = li_content line_info
      in if li_type line_info = CODE_BLOCK_MARKER then Toggle
         else if str_find c ''../assets'' \<ge> 0 then
           (case asset_re c of
              None \<Rightarrow> Keep
            | Some (g1, g2, g3) \<Rightarrow> Import g3 [] (g1 @ ''assets/'' @ g3 @ '')''))
         else if str_find c ''{{renderer :drawio,'' \<ge> 0 then
           (case drawio_re c of
              None \<Rightarrow> Keep
            | Some (g1, filename) \<Rightarrow>
                Import filename ''storages/logseq-drawio-plugin''
                  (g1 @ ''!['' @ filename @ '']'' @ ''(assets/'' @ filename @ '')''))
         else if str_find c ''- TODO '' \<ge> 0 then
           (case checkbox_re ''TODO'' c of
              None \<Rightarrow> Keep
            | Some (g1, g2) \<Rightarrow> Rewrite (g1 @ ''- **&#x2610;'' @ '' TODO** '' @ g2))
         else if str_find c ''- DOING '' \<ge> 0 then
           (case checkbox_re ''DOING'' c of
              None \<Rightarrow> Keep
            | Some (g1, g2) \<Rightarrow> Rewrite (g1 @ ''- **&#x231B;'' @ '' DOING** '' @ g2))
         else if str_find c ''- DONE '' \<ge> 0 then
           (case checkbox_re ''DONE'' c of
              None \<Rightarrow> Keep
            | Some (g1, g2) \<Rightarrow> Rewrite (g1 @ ''- **&#x2611;** ~~'' @ g2 @ ''~~''))
         else if str_find c ''- LATER '' \<ge> 0 then
           (case checkbox_re ''LATER'' c of
              None \<Rightarrow> Keep
            | Some (g1, g2) \<Rightarrow> Rewrite (g1 @ ''- **&#x23F2;'' @ '' LATER** '' @ g2))
         else if str_find c ''- NOW '' \<ge> 0 then
           (case checkbox_re ''NOW'' c of
              None \<Rightarrow> Keep
            | Some (g1, g2) \<Rightarrow> Rewrite (g1 @ ''- **&#x23F0;'' @ '' NOW** '' @ g2))
         else Keep)"

text \<open>The content of a line once the chain has run on it.\<close>

definition rewritten :: "line_info \<Rightarrow> string" where
  "rewritten line_info =
     (case directive_of line_info of
        Import f d c \<Rightarrow> c
      | Rewrite c \<Rightarrow> c
      | _ \<Rightarrow> li_content line_info)"

text \<open>\<open>line_info["content"] = c\<close>: the dictionary is the element \<open>i\<close> of \<open>lines\<close>.\<close>

definition set_content :: "nat \<Rightarrow> string \<Rightarrow> state \<Rightarrow> state" where
  "set_content i c s = s\<lparr>lines := (lines s)[i := (lines s ! i)\<lparr>li_content := c\<rparr>]\<rparr>"

definition rewrite_stage ::
  "(string \<Rightarrow> string \<Rightarrow> bool) \<Rightarrow> nat \<Rightarrow> state \<Rightarrow> error + state" where
  "rewrite_stage fs i s =
     (case directive_of (lines s ! i) of
        Toggle \<Rightarrow> Inr (s\<lparr>traversing_code_block := \<not> traversing_code_block s\<rparr>)
      | Import f d c \<Rightarrow>
         (case import_asset fs f d s of
            Inl e \<Rightarrow> Inl e
          | Inr s1 \<Rightarrow> Inr (set_content i c s1))
      | Rewrite c \<Rightarrow> Inr (set_content i c s)
      | Keep \<Rightarrow> Inr s)"

text \<open>
  \<open>lines[i - 1]\<close>: for \<open>i = 0\<close> the index is \<open>-1\<close>, which Python reads as the last
  element of the list.
\<close>

definition prev_line :: "nat \<Rightarrow> state \<Rightarrow> line_info" where
  "prev_line i s = (if i = 0 then lines s ! (length (lines s) - 1) else lines s ! (i - 1))"

text \<open>Lines 258 to 290.\<close>

definition indent_stage :: "nat \<Rightarrow> state \<Rightarrow> state" where
  "indent_stage i s =
     (let line_info = lines s ! i;
          prev = prev_line i s;
          s1 = (if i = 0 then s\<lparr>target_line_indent := 0\<rparr>
                else if li_type line_info = TITLE \<or> li_type prev = TITLE
                then s\<lparr>target_line_indent := 0\<rparr>
                else s)
      in if li_type line_info \<noteq> TITLE \<and> li_type prev \<noteq> TITLE then
           (if li_indent line_info > li_indent prev then
              (let s2 = s1\<lparr>cur_list_depth := cur_list_depth s1 + 1\<rparr>
               in if cur_list_depth s2 > 1
                  then s2\<lparr>target_line_indent := last_target_line_indent s2 + 1\<rparr>
                  else s2\<lparr>target_line_indent := last_target_line_indent s2\<rparr>)
            else if li_indent line_info < li_indent prev then
              s1\<lparr>target_line_indent :=
                     max 0 (last_target_line_indent s1
                            - (li_indent prev - li_indent line_info)),
                  cur_list_depth := cur_list_depth s1 - 1\<rparr>
            else s1\<lparr>target_line_indent := last_target_line_indent s1\<rparr>)
         else s1)"

text \<open>The \<open>for\<close> loop of lines 327 to 330, on the lines from \<open>i\<close> on.\<close>

fun count_until_end :: "line_info list \<Rightarrow> nat" where
  "count_until_end [] = 0"
| "count_until_end (l # ls) =
     (if str_find (li_content l) '':END:'' \<ge> 0 then 0 else Suc (count_until_end ls))"

text \<open>Lines 347 to 353.\<close>

definition continuation :: "nat \<Rightarrow> state \<Rightarrow> state" where
  "continuation i s =
     (let line_info = lines s ! i
      in if li_type line_info \<noteq> CODE_BLOCK_MARKER
            \<and> i < length (lines s) - 1
            \<and> li_type (lines s ! (i + 1)) = TEXT
            \<and> li_type line_info \<noteq> TITLE
         then s\<lparr>content := content s @ [BACKSLASH]\<rparr>
         else s)"

text \<open>Lines 355 to 363.\<close>

definition finish :: "nat \<Rightarrow> state \<Rightarrow> state" where
  "finish i s =
     (let body = content s;
          tabs = replicate (nat (target_line_indent s)) TAB;
          content' = tabs @ (body @ [NL]);
          s1 = s\<lparr>content := content',
                 output_content := output_content s @ content',
                 trace := trace s @ [Processed (traversing_code_block s)
                                       (target_line_indent s) (Some body)]\<rparr>
      in if li_hierarchy (lines s ! i) = PARENT
         then s1\<lparr>last_target_line_indent := target_line_indent s1\<rparr>
         else s1)"

text \<open>The \<open>continue\<close> of lines 321 and 331.\<close>

definition skip_rest :: "state \<Rightarrow> state" where
  "skip_rest s =
     s\<lparr>trace := trace s @ [Processed (traversing_code_block s) (target_line_indent s) None]\<rparr>"

text \<open>Lines 292 to 363.\<close>

definition content_stage :: "bool \<Rightarrow> nat \<Rightarrow> state \<Rightarrow> state" where
  "content_stage no_br i s =
     (let line_info = lines s ! i;
          c = li_content line_info;
          n = length (lines s)
      in if traversing_code_block s then finish i (s\<lparr>content := drop 2 c\<rparr>)
         else
          (case li_type line_info of
             TITLE \<Rightarrow>
               finish i (continuation i
                 (s\<lparr>content := slice_from (str_find c ''#'') c, cur_list_depth := 0\<rparr>))
           | LIST \<Rightarrow>
               finish i (continuation i
                 (if cur_list_depth s > 0 then
                    (if i < n - 1 \<and> li_indent (lines s ! (i + 1)) < li_indent line_info
                     then s\<lparr>content := c @ [NL]\<rparr>
                     else s\<lparr>content := c\<rparr>)
                  else
                    (if i < n - 1 \<and> li_type (lines s ! (i + 1)) = LIST
                        \<and> li_indent (lines s ! (i + 1)) = li_indent line_info
                     then s\<lparr>content := drop 2 c @ [BACKSLASH]\<rparr>
                     else s\<lparr>content := drop 2 c\<rparr>)))
           | TEXT \<Rightarrow>
               (if str_find c ''collapsed:: true'' \<ge> 0 then skip_rest s
                else if str_find c '':LOGBOOK:'' \<ge> 0 then
                  skip_rest (s\<lparr>lines_to_skip :=
                                 lines_to_skip s + count_until_end (drop i (lines s))\<rparr>)
                else
                  finish i (continuation i
                    (if i < n - 1 \<and> li_type (lines s ! (i + 1)) \<noteq> li_type line_info
                     then s\<lparr>content := drop 2 c @ [NL]\<rparr>
                     else s\<lparr>content := drop 2 c\<rparr>)))
           | CODE \<Rightarrow> finish i (continuation i (s\<lparr>content := drop 2 c\<rparr>))
           | EMPTY \<Rightarrow>
               finish i (continuation i
                 (s\<lparr>content := (if \<not> no_br then ''<br>'' @ [NL] else [NL])\<rparr>))
           | CODE_BLOCK_MARKER \<Rightarrow> finish i (continuation i (s\<lparr>content := drop 2 c\<rparr>))
           | QUOTE \<Rightarrow> finish i (continuation i (s\<lparr>content := drop 2 c\<rparr>))))"

text \<open>One iteration of the second loop, lines 155 to 363.\<close>

definition step ::
  "(string \<Rightarrow> string \<Rightarrow> bool) \<Rightarrow> bool \<Rightarrow> nat \<Rightarrow> state \<Rightarrow> error + state" where
  "step fs no_br i s =
     (if lines_to_skip s > 0
      then Inr (s\<lparr>lines_to_skip := lines_to_skip s - 1, trace := trace s @ [Skipped]\<rparr>)
      else (case rewrite_stage fs i s of
              Inl e \<Rightarrow> Inl e
            | Inr s1 \<Rightarrow> Inr (content_stage no_br i (indent_stage i s1))))"

text \<open>
  How a run ends: the first loop raised, the second loop raised (with the state reached
  before the iteration that raised), or the function came to its last line.
\<close>

datatype outcome = ParseFailed error | Aborted error state | Completed state

text \<open>
  The second loop: \<open>enumerate(lines)\<close> hands out the indices of \<open>lines\<close> in order, and the
  list keeps its length, so the loop runs over \<open>[0..<length lines]\<close>.
\<close>

fun loop ::
  "(string \<Rightarrow> string \<Rightarrow> bool) \<Rightarrow> bool \<Rightarrow> nat list \<Rightarrow> state \<Rightarrow> outcome" where
  "loop fs no_br [] s = Completed s"
| "loop fs no_br (i # is) s =
     (case step fs no_br i s of
        Inl e \<Rightarrow> Aborted e s
      | Inr s' \<Rightarrow> loop fs no_br is s')"

text \<open>
  \<open>export_file_to_folder\<close> on the text of the source file. The output file is written
  by the last statement, so only a run that completes writes it.
\<close>

definition export_file_to_folder ::
  "(string \<Rightarrow> string \<Rightarrow> bool) \<Rightarrow> string \<Rightarrow> bool \<Rightarrow> outcome" where
  "export_file_to_folder fs text no_br =
     (case parse_lines (readlines text) of
        Inl e \<Rightarrow> ParseFailed e
      | Inr ls \<Rightarrow> loop fs no_br [0..<length ls] (init_state ls))"

text \<open>What a run leaves behind: the output file, the copied assets, the exit status.\<close>

fun written :: "outcome \<Rightarrow> string option" where
  "written (Completed s) = Some (output_content s)"
| "written (Aborted e s) = None"
| "written (ParseFailed e) = None"

fun copied :: "outcome \<Rightarrow> (string \<times> string) list" where
  "copied (Completed s) = imported s"
| "copied (Aborted e s) = imported s"
| "copied (ParseFailed e) = []"

text \<open>An exception that nothing catches ends the interpreter with status 1.\<close>

fun exit_status :: "outcome \<Rightarrow> int" where
  "exit_status (Completed s) = 0"
| "exit_status (Aborted e s) = (case e of SystemExit n \<Rightarrow> n | _ \<Rightarrow> 1)"
| "exit_status (ParseFailed e) = (case e of SystemExit n \<Rightarrow> n | _ \<Rightarrow> 1)"

fun final_state :: "outcome \<Rightarrow> state option" where
  "final_state (Completed s) = Some s"
| "final_state (Aborted e s) = Some s"
| "final_state (ParseFailed e) = None"

section \<open>Notions used to state the properties\<close>

text \<open>Whether an iteration added text to the output, and the text it added.\<close>

fun emits :: "event \<Rightarrow> bool" where
  "emits (Processed b t (Some body)) = True"
| "emits (Processed b t None) = False"
| "emits Skipped = False"

fun chunk :: "event \<Rightarrow> string" where
  "chunk (Processed b t (Some body)) = replicate (nat t) TAB @ body @ [NL]"
| "chunk (Processed b t None) = []"
| "chunk Skipped = []"

text \<open>A text that ends with a newline which no other newline precedes.\<close>

definition ends_with_exactly_one_newline :: "string \<Rightarrow> bool" where
  "ends_with_exactly_one_newline str =
     (case rev str of
        [] \<Rightarrow> False
      | c # r \<Rightarrow> c = NL \<and> (case r of [] \<Rightarrow> True | d # r' \<Rightarrow> d \<noteq> NL))"

text \<open>A line as the directive chain leaves it.\<close>

definition after_directives :: "line_info \<Rightarrow> line_info" where
  "after_directives l = l\<lparr>li_content := rewritten l\<rparr>"

text \<open>
  The two tests of the Text branch, on a line as the directive chain left it, with the
  code-block flag \<open>b\<close>: the line ends in \<open>continue\<close>, and the line starts the skip counter.
\<close>

definition has_end :: "line_info \<Rightarrow> bool" where
  "has_end l = (str_find (li_content l) '':END:'' \<ge> 0)"

definition drops_line :: "bool \<Rightarrow> line_info \<Rightarrow> bool" where
  "drops_line b l =
     (\<not> b \<and> li_type l = TEXT
      \<and> (str_find (li_content l) ''collapsed:: true'' \<ge> 0
         \<or> str_find (li_content l) '':LOGBOOK:'' \<ge> 0))"

definition opens_block :: "bool \<Rightarrow> line_info \<Rightarrow> bool" where
  "opens_block b l =
     (\<not> b \<and> li_type l = TEXT
      \<and> \<not> str_find (li_content l) ''collapsed:: true'' \<ge> 0
      \<and> str_find (li_content l) '':LOGBOOK:'' \<ge> 0)"

definition flip :: "bool \<Rightarrow> line_info \<Rightarrow> bool" where
  "flip b l = (if li_type l = CODE_BLOCK_MARKER then \<not> b else b)"

text \<open>
  The two tests taken apart, in the order in which the Text branch makes them: the line
  is a Text line outside a code block that contains \<open>collapsed:: true\<close>; the line is a
  Text line outside a code block that contains \<open>:LOGBOOK:\<close>.
\<close>

definition collapsed_line :: "bool \<Rightarrow> line_info \<Rightarrow> bool" where
  "collapsed_line b l =
     (\<not> b \<and> li_type l = TEXT \<and> str_find (li_content l) ''collapsed:: true'' \<ge> 0)"

definition logbook_line :: "bool \<Rightarrow> line_info \<Rightarrow> bool" where
  "logbook_line b l =
     (\<not> b \<and> li_type l = TEXT \<and> str_find (li_content l) '':LOGBOOK:'' \<ge> 0)"

text \<open>
  Which lines add text to the output, as the program has it, for lines as the directive
  chain left them. A Text line outside a code block that contains \<open>collapsed:: true\<close>
  adds nothing and opens no block, also when it contains \<open>:LOGBOOK:\<close> as well: that test
  comes first. Otherwise, a Text line outside a code block that contains \<open>:LOGBOOK:\<close>
  adds nothing, and neither do the lines after it up to and including the first line
  that contains \<open>:END:\<close>. The search for \<open>:END:\<close> starts at the \<open>:LOGBOOK:\<close> line itself:
  \<open>k\<close> counts the lines from that line on that come before the first line containing
  \<open>:END:\<close>, and the \<open>k\<close> lines after the \<open>:LOGBOOK:\<close> line are dropped (none when the line
  contains \<open>:END:\<close> itself, all remaining lines when no line does). Every other line adds
  one text. The first argument is the code-block flag before the line; the lines of a
  dropped block do not flip it.
\<close>

function kept :: "bool \<Rightarrow> line_info list \<Rightarrow> bool list" where
  "kept b [] = []"
| "kept b (l # ls) =
     (let b' = flip b l; l' = after_directives l
      in if collapsed_line b' l' then False # kept b' ls
         else if logbook_line b' l' then
           (let k = length (takeWhile (\<lambda>x. \<not> has_end x) (l' # ls))
            in False # replicate (min k (length ls)) False @ kept b' (drop k ls))
         else True # kept b' ls)"
  by pat_completeness auto
termination
  by (relation "measure (\<lambda>(b, ls). length ls)") auto

text \<open>
  The same, worded as the metadata rule is stated: a Text line outside a code block that
  contains \<open>:LOGBOOK:\<close> adds nothing, and neither do the lines after it up to and
  including the first line after it that contains \<open>:END:\<close>, whatever else the
  \<open>:LOGBOOK:\<close> line contains; one that contains \<open>collapsed:: true\<close> adds nothing; every
  other line adds one text.
\<close>

function kept_as_stated :: "bool \<Rightarrow> line_info list \<Rightarrow> bool list" where
  "kept_as_stated b [] = []"
| "kept_as_stated b (l # ls) =
     (let b' = flip b l; l' = after_directives l
      in if logbook_line b' l' then
           (let k = Suc (length (takeWhile (\<lambda>x. \<not> has_end x) ls))
            in False # replicate (min k (length ls)) False @ kept_as_stated b' (drop k ls))
         else if collapsed_line b' l' then False # kept_as_stated b' ls
         else True # kept_as_stated b' ls)"
  by pat_completeness auto
termination
  by (relation "measure (\<lambda>(b, ls). length ls)") auto

text \<open>The fence markers among the lines that the second loop did not skip.\<close>

definition processed_markers :: "line_info list \<Rightarrow> event list \<Rightarrow> nat" where
  "processed_markers ls tr =
     length (filter (\<lambda>(l, e). e \<noteq> Skipped \<and> li_type l = CODE_BLOCK_MARKER) (zip ls tr))"

definition markers :: "line_info list \<Rightarrow> nat" where
  "markers ls = length (filter (\<lambda>l. li_type l = CODE_BLOCK_MARKER) ls)"

text \<open>The lines and the trace of a run on a document; both are empty when there are none.\<close>

definition parsed :: "string \<Rightarrow> line_info list" where
  "parsed text = (case parse_lines (readlines text) of Inl e \<Rightarrow> [] | Inr ls \<Rightarrow> ls)"

definition run_trace :: "(string \<Rightarrow> string \<Rightarrow> bool) \<Rightarrow> string \<Rightarrow> bool \<Rightarrow> event list" where
  "run_trace fs text no_br =
     (case final_state (export_file_to_folder fs text no_br) of
        None \<Rightarrow> [] | Some s \<Rightarrow> trace s)"

fun completed :: "outcome \<Rightarrow> bool" where
  "completed (Completed s) = True"
| "completed (Aborted e s) = False"
| "completed (ParseFailed e) = False"

text \<open>
  The lines in the state and the lines that were parsed: the trace has one entry for
  each iteration done, the lines not yet reached are untouched, and no line changes its
  type.
\<close>

definition agrees :: "line_info list \<Rightarrow> nat \<Rightarrow> state \<Rightarrow> bool" where
  "agrees ls j t \<longleftrightarrow>
     length (trace t) = j \<and> drop j (lines t) = drop j ls
     \<and> map li_type (lines t) = map li_type ls"

text \<open>What the indentation rule promises for the event of line \<open>m\<close>.\<close>

definition indent_ok :: "line_info list \<Rightarrow> nat \<Rightarrow> event \<Rightarrow> bool" where
  "indent_ok ls m e =
     (case e of
        Skipped \<Rightarrow> True
      | Processed b tg c \<Rightarrow>
          0 \<le> tg \<and> (li_type (ls ! m) = TITLE \<or> (0 < m \<and> li_type (ls ! (m - 1)) = TITLE)
                     \<longrightarrow> tg = 0))"

text \<open>What holds for the event of line \<open>m\<close> when the code-block flag is set.\<close>

definition verbatim_ok :: "line_info list \<Rightarrow> nat \<Rightarrow> event \<Rightarrow> bool" where
  "verbatim_ok ls m e =
     (case e of
        Skipped \<Rightarrow> True
      | Processed b tg c \<Rightarrow> b \<longrightarrow> c = Some (drop 2 (rewritten (ls ! m))))"

section \<open>Runs on the documents of the testable properties\<close>

text \<open>
  C1. The document \<open>- A\n\t- B\n\t\t- C\n\<close> has raw indents 0, 1 and 2. The
  specification expects the target indents 0, 0 and 1. The program computes 0, 0 and 0:
  in the first iteration \<open>lines[i - 1]\<close> is \<open>lines[-1]\<close>, the last line, whose indent 2
  is larger than the indent 0 of the first line, so the list depth drops to -1 before
  any nesting is seen, and the two nesting steps bring it to 0 and 1 only.
\<close>

theorem nested_list_target_indents:
  "map_sum id (map li_indent)
     (parse_lines (readlines (''- A\<newline>'' @ [TAB] @ ''- B\<newline>'' @ [TAB, TAB] @ ''- C\<newline>'')))
     = Inr [0, 1, 2]
   \<and> map_option trace (final_state (export_file_to_folder (\<lambda>d f. True)
        (''- A\<newline>'' @ [TAB] @ ''- B\<newline>'' @ [TAB, TAB] @ ''- C\<newline>'') False))
     = Some [Processed False 0 (Some ''A''), Processed False 0 (Some ''B''),
             Processed False 0 (Some ''- C'')]"
  by code_simp

text \<open>
  With a fourth line at indent 0 the last line has the indent of the first one, the
  first iteration leaves the list depth at 0, and the same three lines get the target
  indents 0, 0 and 1.
\<close>

lemma nested_list_then_root_item:
  "map_option trace (final_state (export_file_to_folder (\<lambda>d f. True)
        (''- A\<newline>'' @ [TAB] @ ''- B\<newline>'' @ [TAB, TAB] @ ''- C\<newline>- D\<newline>'') False))
     = Some [Processed False 0 (Some ''A''), Processed False 0 (Some ''- B''),
             Processed False 1 (Some ''- C\<newline>''), Processed False 0 (Some ''- D'')]"
  by code_simp



text \<open>
  C6. A line with the content \<open>![x](../assets/img.png)\<close> is a Text line; the directive
  chain asks for the asset \<open>img.png\<close> with the empty subdirectory and sets the content to
  \<open>![x](assets/img.png)\<close>; the run on the one-line document makes that one request and
  no other.
\<close>

theorem asset_reference_rewrite:
  "parse_lines [''![x](../assets/img.png)\<newline>'']
     = Inr [\<lparr>li_content = ''![x](../assets/img.png)'', li_indent = 0,
             li_type = TEXT, li_hierarchy = CHILD\<rparr>]
   \<and> directive_of \<lparr>li_content = ''![x](../assets/img.png)'', li_indent = 0,
                     li_type = TEXT, li_hierarchy = CHILD\<rparr>
     = Import ''img.png'' [] ''![x](assets/img.png)''
   \<and> copied (export_file_to_folder (\<lambda>d f. True) ''![x](../assets/img.png)\<newline>'' False)
     = [(''img.png'', [])]
   \<and> map_option (map li_content \<circ> lines)
        (final_state (export_file_to_folder (\<lambda>d f. True) ''![x](../assets/img.png)\<newline>'' False))
     = Some [''![x](assets/img.png)'']"
  by code_simp

section \<open>The first loop\<close>

lemma get_line_type_empty: "get_line_type line [] = Inl IndexError"
  by (simp add: get_line_type_def char_at_def)

lemma get_line_type_error_kinds:
  "get_line_type line c = Inl e \<Longrightarrow> e = SystemExit 1 \<or> e = IndexError"
  by (auto simp: get_line_type_def char_at_def Let_def split: if_splits)

lemma get_line_type_exit_iff:
  "get_line_type line c = Inl (SystemExit 1) \<longleftrightarrow>
     c \<noteq> [] \<and> hd c \<noteq> CHR ''#'' \<and> hd c \<noteq> CHR ''-'' \<and> hd c \<noteq> CHR '' ''
     \<and> (length c \<le> 2 \<or> c ! 2 = CHR ''#''
        \<or> (c ! 2 = CHR ''`'' \<and> parent_code_block_re line = None
            \<and> child_code_block_re line = None))"
  by (cases c; cases "parent_code_block_re line"; cases "child_code_block_re line")
     (auto simp: get_line_type_def char_at_def Let_def)

lemma parse_lines_error_kinds:
  "parse_lines ls = Inl e \<Longrightarrow> e = SystemExit 1 \<or> e = IndexError"
proof (induction ls)
  case Nil
  then show ?case by simp
next
  case (Cons l ls)
  then show ?case
    by (auto split: option.splits sum.splits prod.splits dest: get_line_type_error_kinds)
qed

lemma parse_lines_rejects:
  "l \<in> set ls \<Longrightarrow> line_re l = Some (g, c) \<Longrightarrow> get_line_type l c = Inl e
   \<Longrightarrow> \<exists>e'. parse_lines ls = Inl e'"
proof (induction ls)
  case Nil
  then show ?case by simp
next
  case (Cons a ls)
  then show ?case
    by (cases "a = l") (auto split: option.splits sum.splits prod.splits)
qed

lemma parse_lines_append_fail:
  "parse_lines pre = Inr ok \<Longrightarrow> parse_lines rest = Inl e \<Longrightarrow> parse_lines (pre @ rest) = Inl e"
proof (induction pre arbitrary: ok)
  case Nil
  then show ?case by simp
next
  case (Cons a pre)
  then show ?case
    by (auto split: option.splits sum.splits prod.splits)
qed

lemma star_takes_all:
  "list_all P xs \<Longrightarrow> ys = [] \<or> \<not> P (hd ys) \<Longrightarrow> k xs ys = Some r
   \<Longrightarrow> star P k (xs @ ys) = Some r"
proof (induction xs arbitrary: k)
  case Nil
  then show ?case by (cases ys) auto
next
  case (Cons x xs)
  from Cons.prems have "star P (\<lambda>m. k (x # m)) (xs @ ys) = Some r"
    by (intro Cons.IH) auto
  with Cons.prems show ?case by simp
qed

lemma line_re_tabs_only:
  assumes "l = replicate k TAB \<or> l = replicate k TAB @ [NL]"
  shows "line_re l = Some (replicate k TAB, [])"
proof -
  obtain e where l: "l = replicate k TAB @ e" and e: "e = [] \<or> e = [NL]"
    using assms by auto
  have "any_star (\<lambda>g2. eos (Some (replicate k TAB, g2))) e = Some (replicate k TAB, [])"
    using e by (auto simp: any_star_def eos_def)
  moreover have "e = [] \<or> \<not> (hd e = TAB)"
    using e by (auto simp: NL_def TAB_def)
  moreover have "list_all (\<lambda>c. c = TAB) (replicate k TAB)"
    by (simp add: list_all_iff)
  ultimately show ?thesis
    unfolding line_re_def tab_star_def l
    by (intro star_takes_all) auto
qed

text \<open>
  C7. When the classifier ends some line of the document with \<open>exit(1)\<close>, the run
  writes no output file, copies no asset and ends with a non-zero exit status: every
  line is classified in the first loop, before the first asset is copied and before the
  output file is opened. (An earlier line with empty content ends the run first, with the
  index error, and the status is 1 all the same.)
\<close>

theorem unclassifiable_line_aborts:
  assumes "line \<in> set (readlines text)"
    and "line_re line = Some (g1, c)"
    and "get_line_type line c = Inl (SystemExit 1)"
  shows "written (export_file_to_folder fs text no_br) = None
         \<and> copied (export_file_to_folder fs text no_br) = []
         \<and> exit_status (export_file_to_folder fs text no_br) \<noteq> 0"
proof -
  obtain e where e: "parse_lines (readlines text) = Inl e"
    using parse_lines_rejects [OF assms] by blast
  then have "e = SystemExit 1 \<or> e = IndexError"
    by (rule parse_lines_error_kinds)
  with e show ?thesis
    by (auto simp: export_file_to_folder_def)
qed

theorem unclassifiable_line_aborts_witness:
  "''x\<newline>'' \<in> set (readlines ''- A\<newline>x\<newline>- B\<newline>'')
   \<and> line_re ''x\<newline>'' = Some ([], ''x'')
   \<and> get_line_type ''x\<newline>'' ''x'' = Inl (SystemExit 1)
   \<and> written (export_file_to_folder (\<lambda>d f. True) ''- A\<newline>x\<newline>- B\<newline>'' False) = None
   \<and> copied (export_file_to_folder (\<lambda>d f. True) ''- A\<newline>x\<newline>- B\<newline>'' False) = []
   \<and> exit_status (export_file_to_folder (\<lambda>d f. True) ''- A\<newline>x\<newline>- B\<newline>'' False) \<noteq> 0"
proof -
  have h1: "''x\<newline>'' \<in> set (readlines ''- A\<newline>x\<newline>- B\<newline>'')" by code_simp
  have h2: "line_re ''x\<newline>'' = Some ([], ''x'')" by code_simp
  have h3: "get_line_type ''x\<newline>'' ''x'' = Inl (SystemExit 1)" by code_simp
  show ?thesis
    using unclassifiable_line_aborts [OF h1 h2 h3, of "\<lambda>d f. True" False] h1 h2 h3 by simp
qed

text \<open>
  C10. A blank line or a line of tabs only has empty content, the classifier reads its
  character 0, and the run ends with the index error, not with the classifier's
  \<open>exit(1)\<close>, as soon as the lines before it are classified.
\<close>

theorem blank_line_index_error:
  assumes "readlines text = pre @ l # post"
    and "parse_lines pre = Inr ok"
    and "l = replicate k TAB \<or> l = replicate k TAB @ [NL]"
  shows "export_file_to_folder fs text no_br = ParseFailed IndexError"
proof -
  have "line_re l = Some (replicate k TAB, [])"
    using assms(3) by (rule line_re_tabs_only)
  then have "parse_lines (l # post) = Inl IndexError"
    by (simp add: get_line_type_empty)
  with assms(2) have "parse_lines (pre @ l # post) = Inl IndexError"
    by (rule parse_lines_append_fail)
  then show ?thesis
    by (simp add: export_file_to_folder_def assms(1))
qed

theorem blank_line_index_error_witness:
  "readlines ''- A\<newline>\<newline>- B\<newline>'' = [''- A\<newline>''] @ ''\<newline>'' # [''- B\<newline>'']
   \<and> parse_lines [''- A\<newline>'']
       = Inr [\<lparr>li_content = ''- A'', li_indent = 0, li_type = LIST, li_hierarchy = PARENT\<rparr>]
   \<and> export_file_to_folder (\<lambda>d f. True) ''- A\<newline>\<newline>- B\<newline>'' False = ParseFailed IndexError"
proof -
  have h1: "readlines ''- A\<newline>\<newline>- B\<newline>'' = [''- A\<newline>''] @ ''\<newline>'' # [''- B\<newline>'']"
    by code_simp
  have h2: "parse_lines [''- A\<newline>'']
       = Inr [\<lparr>li_content = ''- A'', li_indent = 0, li_type = LIST, li_hierarchy = PARENT\<rparr>]"
    by code_simp
  have h3: "''\<newline>'' = replicate 0 TAB \<or> ''\<newline>'' = replicate 0 TAB @ [NL]"
    by (simp add: NL_def)
  show ?thesis
    using blank_line_index_error [OF h1 h2 h3, of "\<lambda>d f. True" False] h1 h2 by simp
qed

section \<open>The second loop, one iteration\<close>

subsection \<open>What each stage does to each variable\<close>

lemma directive_of_Toggle_iff: "directive_of l = Toggle \<longleftrightarrow> li_type l = CODE_BLOCK_MARKER"
  by (simp add: directive_of_def Let_def split: option.splits prod.splits)

lemma rewrite_stage_lines:
  assumes "rewrite_stage fs i s = Inr s1"
  shows "lines s1 = (lines s)[i := after_directives (lines s ! i)]"
  using assms
  by (cases "directive_of (lines s ! i)")
     (auto simp: rewrite_stage_def rewritten_def after_directives_def import_asset_def
                 set_content_def split: if_splits)

lemma rewrite_stage_flag:
  assumes "rewrite_stage fs i s = Inr s1"
  shows "traversing_code_block s1 = flip (traversing_code_block s) (lines s ! i)"
  using assms directive_of_Toggle_iff [of "lines s ! i"]
  by (cases "directive_of (lines s ! i)")
     (auto simp: rewrite_stage_def flip_def import_asset_def set_content_def split: if_splits)

lemma rewrite_stage_same:
  assumes "rewrite_stage fs i s = Inr s1"
  shows "trace s1 = trace s" and "lines_to_skip s1 = lines_to_skip s"
    and "output_content s1 = output_content s"
    and "last_target_line_indent s1 = last_target_line_indent s"
  using assms
  by (cases "directive_of (lines s ! i)";
      auto simp: rewrite_stage_def import_asset_def set_content_def split: if_splits)+

lemma indent_stage_same:
  "lines (indent_stage i s) = lines s"
  "trace (indent_stage i s) = trace s"
  "lines_to_skip (indent_stage i s) = lines_to_skip s"
  "output_content (indent_stage i s) = output_content s"
  "last_target_line_indent (indent_stage i s) = last_target_line_indent s"
  "traversing_code_block (indent_stage i s) = traversing_code_block s"
  by (simp_all add: indent_stage_def Let_def)

lemma indent_stage_nonneg:
  "0 \<le> last_target_line_indent s \<Longrightarrow> 0 \<le> target_line_indent (indent_stage i s)"
  by (simp add: indent_stage_def Let_def)

lemma indent_stage_title:
  "li_type (lines s ! i) = TITLE \<or> (0 < i \<and> li_type (lines s ! (i - 1)) = TITLE)
   \<Longrightarrow> target_line_indent (indent_stage i s) = 0"
  by (auto simp: indent_stage_def Let_def prev_line_def)

lemma continuation_same:
  "lines (continuation i s) = lines s"
  "trace (continuation i s) = trace s"
  "lines_to_skip (continuation i s) = lines_to_skip s"
  "output_content (continuation i s) = output_content s"
  "last_target_line_indent (continuation i s) = last_target_line_indent s"
  "target_line_indent (continuation i s) = target_line_indent s"
  "traversing_code_block (continuation i s) = traversing_code_block s"
  by (simp_all add: continuation_def Let_def)

lemma finish_fields:
  "lines (finish i s) = lines s"
  "trace (finish i s) =
     trace s @ [Processed (traversing_code_block s) (target_line_indent s) (Some (content s))]"
  "output_content (finish i s) =
     output_content s
     @ chunk (Processed (traversing_code_block s) (target_line_indent s) (Some (content s)))"
  "lines_to_skip (finish i s) = lines_to_skip s"
  "traversing_code_block (finish i s) = traversing_code_block s"
  "last_target_line_indent (finish i s) =
     (if li_hierarchy (lines s ! i) = PARENT then target_line_indent s
      else last_target_line_indent s)"
  by (simp_all add: finish_def Let_def)

lemma skip_rest_fields:
  "lines (skip_rest s) = lines s"
  "trace (skip_rest s) =
     trace s @ [Processed (traversing_code_block s) (target_line_indent s) None]"
  "output_content (skip_rest s) = output_content s"
  "lines_to_skip (skip_rest s) = lines_to_skip s"
  "traversing_code_block (skip_rest s) = traversing_code_block s"
  "last_target_line_indent (skip_rest s) = last_target_line_indent s"
  by (simp_all add: skip_rest_def)

lemmas stage_fields = continuation_same finish_fields skip_rest_fields

lemma content_stage_lines: "lines (content_stage no_br i s) = lines s"
  by (simp add: content_stage_def Let_def stage_fields split: LineType.splits)

lemma content_stage_flag:
  "traversing_code_block (content_stage no_br i s) = traversing_code_block s"
  by (simp add: content_stage_def Let_def stage_fields split: LineType.splits)

lemma content_stage_last:
  "last_target_line_indent (content_stage no_br i s) = last_target_line_indent s
   \<or> last_target_line_indent (content_stage no_br i s) = target_line_indent s"
  by (simp add: content_stage_def Let_def stage_fields split: LineType.splits)

lemma content_stage_skip:
  "lines_to_skip (content_stage no_br i s) =
     (if opens_block (traversing_code_block s) (lines s ! i)
      then lines_to_skip s + count_until_end (drop i (lines s))
      else lines_to_skip s)"
  by (simp add: content_stage_def Let_def stage_fields opens_block_def split: LineType.splits)

lemma content_stage_event:
  "\<exists>body. trace (content_stage no_br i s)
            = trace s @ [Processed (traversing_code_block s) (target_line_indent s) body]
     \<and> output_content (content_stage no_br i s)
            = output_content s
              @ chunk (Processed (traversing_code_block s) (target_line_indent s) body)
     \<and> (body = None \<longleftrightarrow> drops_line (traversing_code_block s) (lines s ! i))
     \<and> (traversing_code_block s \<longrightarrow> body = Some (drop 2 (li_content (lines s ! i))))"
  by (cases "li_type (lines s ! i)")
     (simp_all add: content_stage_def Let_def stage_fields drops_line_def)

subsection \<open>One iteration as a whole\<close>

lemma step_skipping:
  assumes "lines_to_skip s = Suc k"
  shows "step fs no_br i s = Inr (s\<lparr>lines_to_skip := k, trace := trace s @ [Skipped]\<rparr>)"
  using assms by (simp add: step_def)

lemma li_type_after_directives [simp]: "li_type (after_directives l) = li_type l"
  by (simp add: after_directives_def)

text \<open>
  An iteration that the skip counter does not take: the line is rewritten in place, the
  flag flips on a fence marker, one event is recorded and its text is added to the
  output, and the skip counter is started by a line that opens a metadata block.
\<close>

lemma step_processing:
  assumes "lines_to_skip s = 0" and "step fs no_br i s = Inr s'" and "i < length (lines s)"
  defines "l' \<equiv> after_directives (lines s ! i)"
    and "b' \<equiv> flip (traversing_code_block s) (lines s ! i)"
  shows "lines s' = (lines s)[i := l']"
    and "traversing_code_block s' = b'"
    and "lines_to_skip s' =
           (if opens_block b' l' then count_until_end (l' # drop (Suc i) (lines s)) else 0)"
    and "\<exists>t body. trace s' = trace s @ [Processed b' t body]
           \<and> output_content s' = output_content s @ chunk (Processed b' t body)
           \<and> (body = None \<longleftrightarrow> drops_line b' l')
           \<and> (b' \<longrightarrow> body = Some (drop 2 (li_content l')))
           \<and> (0 \<le> last_target_line_indent s \<longrightarrow> 0 \<le> t)
           \<and> (li_type (lines s ! i) = TITLE
                \<or> (0 < i \<and> li_type (lines s ! (i - 1)) = TITLE) \<longrightarrow> t = 0)"
    and "0 \<le> last_target_line_indent s \<Longrightarrow> 0 \<le> last_target_line_indent s'"
proof -
  from assms(1,2) obtain s1 where
    s1: "rewrite_stage fs i s = Inr s1" and
    s': "s' = content_stage no_br i (indent_stage i s1)"
    by (auto simp: step_def split: sum.splits)
  let ?s2 = "indent_stage i s1"
  have lines1: "lines s1 = (lines s)[i := l']"
    using rewrite_stage_lines [OF s1] by (simp add: l'_def)
  have at_i: "lines ?s2 ! i = l'"
    using assms(3) by (simp add: indent_stage_same lines1)
  have flag2: "traversing_code_block ?s2 = b'"
    using rewrite_stage_flag [OF s1] by (simp add: indent_stage_same b'_def)
  have at_i1: "lines s1 ! i = l'"
    using assms(3) by (simp add: lines1)
  have flag1: "traversing_code_block s1 = b'"
    using rewrite_stage_flag [OF s1] by (simp add: b'_def)
  show "lines s' = (lines s)[i := l']"
    by (simp add: s' content_stage_lines indent_stage_same lines1)
  show "traversing_code_block s' = b'"
    by (simp add: s' content_stage_flag flag2)
  have "drop i (lines ?s2) = l' # drop (Suc i) (lines s)"
    using assms(3) by (simp add: indent_stage_same lines1 drop_update_cancel
                                 Cons_nth_drop_Suc [symmetric])
  then show "lines_to_skip s' =
           (if opens_block b' l' then count_until_end (l' # drop (Suc i) (lines s)) else 0)"
    using rewrite_stage_same(2) [OF s1] assms(1)
    by (simp add: s' content_stage_skip flag1 at_i1 indent_stage_same)
  have types: "li_type (lines s1 ! i) = li_type (lines s ! i)"
    "0 < i \<Longrightarrow> li_type (lines s1 ! (i - 1)) = li_type (lines s ! (i - 1))"
    using assms(3) by (simp_all add: lines1 l'_def)
  have nonneg: "0 \<le> last_target_line_indent s \<Longrightarrow> 0 \<le> target_line_indent ?s2"
    using rewrite_stage_same(4) [OF s1] by (simp add: indent_stage_nonneg)
  have title: "li_type (lines s ! i) = TITLE \<or> (0 < i \<and> li_type (lines s ! (i - 1)) = TITLE)
               \<Longrightarrow> target_line_indent ?s2 = 0"
    using types by (intro indent_stage_title) auto
  from content_stage_event [of no_br i ?s2] obtain body where
    "trace s' = trace ?s2 @ [Processed b' (target_line_indent ?s2) body]"
    "output_content s' = output_content ?s2 @ chunk (Processed b' (target_line_indent ?s2) body)"
    "body = None \<longleftrightarrow> drops_line b' l'"
    "b' \<longrightarrow> body = Some (drop 2 (li_content l'))"
    unfolding s' flag2 at_i by blast
  then show "\<exists>t body. trace s' = trace s @ [Processed b' t body]
           \<and> output_content s' = output_content s @ chunk (Processed b' t body)
           \<and> (body = None \<longleftrightarrow> drops_line b' l')
           \<and> (b' \<longrightarrow> body = Some (drop 2 (li_content l')))
           \<and> (0 \<le> last_target_line_indent s \<longrightarrow> 0 \<le> t)
           \<and> (li_type (lines s ! i) = TITLE
                \<or> (0 < i \<and> li_type (lines s ! (i - 1)) = TITLE) \<longrightarrow> t = 0)"
    using nonneg title rewrite_stage_same(1,3) [OF s1]
    by (intro exI [of _ "target_line_indent ?s2"] exI [of _ body])
       (simp add: indent_stage_same)
  show "0 \<le> last_target_line_indent s'" if "0 \<le> last_target_line_indent s"
    using content_stage_last [of no_br i ?s2] nonneg [OF that] that
      rewrite_stage_same(4) [OF s1]
    by (auto simp: s' indent_stage_same)
qed

section \<open>The second loop, all iterations\<close>

text \<open>
  A property \<open>I j t\<close> of the index and the state that holds before the first iteration
  and that every iteration keeps holds at the end of the loop, with the number of lines
  as index when the loop runs to the end.
\<close>

lemma loop_invariant:
  assumes "I i s" and "i \<le> n"
    and "\<And>j t t'. i \<le> j \<Longrightarrow> j < n \<Longrightarrow> I j t \<Longrightarrow> step fs no_br j t = Inr t' \<Longrightarrow> I (Suc j) t'"
    and "final_state (loop fs no_br [i..<n] s) = Some s'"
  shows "\<exists>j. i \<le> j \<and> j \<le> n \<and> I j s' \<and> (loop fs no_br [i..<n] s = Completed s' \<longrightarrow> j = n)"
  using assms
proof (induction "n - i" arbitrary: i s)
  case 0
  then show ?case by auto
next
  case (Suc d)
  then have i: "i < n" and upt: "[i..<n] = i # [Suc i..<n]"
    by (auto simp: upt_conv_Cons)
  show ?case
  proof (cases "step fs no_br i s")
    case (Inl e)
    with Suc.prems(4) i Suc.prems(1) show ?thesis
      by (auto simp: upt intro!: exI [of _ i])
  next
    case (Inr t)
    have "\<exists>j. Suc i \<le> j \<and> j \<le> n \<and> I j s'
            \<and> (loop fs no_br [Suc i..<n] t = Completed s' \<longrightarrow> j = n)"
    proof (rule Suc.hyps(1))
      show "d = n - Suc i" using Suc.hyps(2) by simp
      show "I (Suc i) t" using Suc.prems(3) [OF _ i Suc.prems(1) Inr] by simp
      show "Suc i \<le> n" using i by simp
      show "\<And>j t t'. Suc i \<le> j \<Longrightarrow> j < n \<Longrightarrow> I j t \<Longrightarrow> step fs no_br j t = Inr t'
              \<Longrightarrow> I (Suc j) t'"
        using Suc.prems(3) by simp
      show "final_state (loop fs no_br [Suc i..<n] t) = Some s'"
        using Suc.prems(4) Inr by (simp add: upt)
    qed
    then obtain j where "Suc i \<le> j" "j \<le> n" "I j s'"
      "loop fs no_br [Suc i..<n] t = Completed s' \<longrightarrow> j = n"
      by blast
    then show ?thesis
      using Inr by (intro exI [of _ j]) (simp add: upt)
  qed
qed

lemma agrees_init: "agrees ls 0 (init_state ls)"
  by (simp add: agrees_def init_state_def)

lemma agrees_length: "agrees ls j t \<Longrightarrow> length (lines t) = length ls"
  unfolding agrees_def by (metis length_map)

lemma agrees_nth:
  assumes "agrees ls j t" and "j < length ls"
  shows "lines t ! j = ls ! j" and "drop (Suc j) (lines t) = drop (Suc j) ls"
proof -
  have len: "j < length (lines t)"
    using assms agrees_length by simp
  have "lines t ! j # drop (Suc j) (lines t) = ls ! j # drop (Suc j) ls"
    using assms len by (simp add: agrees_def Cons_nth_drop_Suc)
  then show "lines t ! j = ls ! j" and "drop (Suc j) (lines t) = drop (Suc j) ls"
    by simp_all
qed

lemma agrees_type:
  assumes "agrees ls j t" and "m < length ls"
  shows "li_type (lines t ! m) = li_type (ls ! m)"
proof -
  have "map li_type (lines t) ! m = map li_type ls ! m"
    using assms by (simp add: agrees_def)
  then show ?thesis
    using assms agrees_length [OF assms(1)] by simp
qed

lemma agrees_step:
  assumes "agrees ls j t" and "j < length ls" and "step fs no_br j t = Inr t'"
  shows "agrees ls (Suc j) t'"
proof (cases "lines_to_skip t")
  case (Suc k)
  then have "t' = t\<lparr>lines_to_skip := k, trace := trace t @ [Skipped]\<rparr>"
    using assms(3) by (simp add: step_skipping)
  then show ?thesis
    using agrees_nth(2) [OF assms(1,2)] assms(1) by (simp add: agrees_def)
next
  case 0
  have len: "j < length (lines t)"
    using assms agrees_length by simp
  note st = step_processing [OF 0 assms(3) len]
  have "map li_type (lines t') = map li_type (lines t)"
    using len by (simp add: st(1) map_update list_update_same_conv)
  moreover have "drop (Suc j) (lines t') = drop (Suc j) ls"
    using agrees_nth(2) [OF assms(1,2)] by (simp add: st(1) drop_update_cancel)
  moreover have "length (trace t') = Suc j"
    using st(4) assms(1) by (auto simp: agrees_def)
  ultimately show ?thesis
    using assms(1) by (simp add: agrees_def)
qed

section \<open>Properties of every run\<close>

lemma run_cases:
  obtains (failed) "run_trace fs text no_br = []" "\<not> completed (export_file_to_folder fs text no_br)"
  | (ran) ls s where "parse_lines (readlines text) = Inr ls" and "parsed text = ls"
      and "export_file_to_folder fs text no_br = loop fs no_br [0..<length ls] (init_state ls)"
      and "final_state (loop fs no_br [0..<length ls] (init_state ls)) = Some s"
      and "run_trace fs text no_br = trace s"
proof (cases "parse_lines (readlines text)")
  case (Inl e)
  then show ?thesis
    by (intro failed) (simp_all add: run_trace_def export_file_to_folder_def)
next
  case (Inr ls)
  then have ex: "export_file_to_folder fs text no_br = loop fs no_br [0..<length ls] (init_state ls)"
    by (simp add: export_file_to_folder_def)
  show ?thesis
  proof (cases "final_state (loop fs no_br [0..<length ls] (init_state ls))")
    case None
    then show ?thesis
      by (intro failed) (cases "loop fs no_br [0..<length ls] (init_state ls)",
          simp_all add: run_trace_def ex)+
  next
    case (Some s)
    then show ?thesis
      using Inr ex by (intro ran [of ls s]) (simp_all add: parsed_def run_trace_def)
  qed
qed

subsection \<open>Target indentation\<close>

lemma indents_invariant:
  assumes "final_state (loop fs no_br [0..<length ls] (init_state ls)) = Some s"
  shows "\<forall>m < length (trace s). indent_ok ls m (trace s ! m)"
proof -
  let ?I = "\<lambda>j t. agrees ls j t \<and> 0 \<le> last_target_line_indent t
                \<and> (\<forall>m < j. indent_ok ls m (trace t ! m))"
  have "\<exists>j. 0 \<le> j \<and> j \<le> length ls \<and> ?I j s
          \<and> (loop fs no_br [0..<length ls] (init_state ls) = Completed s \<longrightarrow> j = length ls)"
  proof (rule loop_invariant [where I = ?I, OF _ _ _ assms])
    show "?I 0 (init_state ls)"
      by (simp add: agrees_init) (simp add: init_state_def)
    show "0 \<le> length ls" by simp
    fix j t t'
    assume j: "j < length ls" and I: "?I j t" and step: "step fs no_br j t = Inr t'"
    then have ag: "agrees ls j t" and len: "length (trace t) = j"
      by (simp_all add: agrees_def)
    have ag': "agrees ls (Suc j) t'"
      using ag j step by (rule agrees_step)
    show "?I (Suc j) t'"
    proof (cases "lines_to_skip t")
      case (Suc k)
      then have t': "t' = t\<lparr>lines_to_skip := k, trace := trace t @ [Skipped]\<rparr>"
        using step by (simp add: step_skipping)
      have "indent_ok ls m (trace t' ! m)" if "m < Suc j" for m
        using that I len by (cases "m = j") (simp_all add: t' nth_append indent_ok_def)
      then show ?thesis
        using ag' I by (simp add: t')
    next
      case 0
      have lenl: "j < length (lines t)"
        using ag j agrees_length by simp
      note st = step_processing [OF 0 step lenl]
      from st(4) obtain tg body where
        tr: "trace t' = trace t @ [Processed (flip (traversing_code_block t) (lines t ! j)) tg body]"
        and tg: "0 \<le> tg"
          "li_type (lines t ! j) = TITLE \<or> (0 < j \<and> li_type (lines t ! (j - 1)) = TITLE)
           \<longrightarrow> tg = 0"
        using I by blast
      have "li_type (lines t ! j) = li_type (ls ! j)"
        using ag j by (rule agrees_type)
      moreover have "0 < j \<Longrightarrow> li_type (lines t ! (j - 1)) = li_type (ls ! (j - 1))"
        using ag j by (intro agrees_type) simp_all
      ultimately have new: "indent_ok ls j (trace t' ! j)"
        using tg len by (auto simp: tr indent_ok_def)
      have "indent_ok ls m (trace t' ! m)" if "m < Suc j" for m
        using that I len new by (cases "m = j") (simp_all add: tr nth_append)
      then show ?thesis
        using ag' I st(5) by simp
    qed
  qed
  then obtain j where "agrees ls j s" "\<forall>m < j. indent_ok ls m (trace s ! m)"
    by blast
  then show ?thesis
    by (simp add: agrees_def)
qed

text \<open>
  C3. In every run, the target indentation computed for a line that is processed is
  not negative, and it is 0 for a Title line and for the line that follows a Title line.
\<close>

theorem target_indent_nonneg_title_zero:
  assumes "m < length (run_trace fs text no_br)"
    and "run_trace fs text no_br ! m = Processed b tg c"
  shows "0 \<le> tg
         \<and> (li_type (parsed text ! m) = TITLE
              \<or> (0 < m \<and> li_type (parsed text ! (m - 1)) = TITLE) \<longrightarrow> tg = 0)"
proof (cases rule: run_cases [of fs "text" no_br])
  case failed
  with assms show ?thesis by simp
next
  case (ran ls s)
  have "indent_ok ls m (trace s ! m)"
    using indents_invariant [OF ran(4)] assms(1) ran(5) by simp
  then show ?thesis
    using assms(2) ran(2,5) by (simp add: indent_ok_def)
qed

theorem target_indent_nonneg_title_zero_witness:
  "2 < length (run_trace (\<lambda>d f. True) (''- a\<newline>'' @ [TAB] @ ''- # T\<newline>'' @ [TAB, TAB] @ ''- b\<newline>'') False)
   \<and> run_trace (\<lambda>d f. True) (''- a\<newline>'' @ [TAB] @ ''- # T\<newline>'' @ [TAB, TAB] @ ''- b\<newline>'') False ! 2
       = Processed False 0 (Some ''b'')
   \<and> li_type (parsed (''- a\<newline>'' @ [TAB] @ ''- # T\<newline>'' @ [TAB, TAB] @ ''- b\<newline>'') ! (2 - 1)) = TITLE"
proof -
  let ?D = "''- a\<newline>'' @ [TAB] @ ''- # T\<newline>'' @ [TAB, TAB] @ ''- b\<newline>''"
  have h1: "2 < length (run_trace (\<lambda>d f. True) ?D False)" by code_simp
  have h2: "run_trace (\<lambda>d f. True) ?D False ! 2 = Processed False 0 (Some ''b'')" by code_simp
  have h3: "li_type (parsed ?D ! (2 - 1)) = TITLE" by code_simp
  show ?thesis
    using target_indent_nonneg_title_zero [OF h1 h2] h1 h2 h3 by simp
qed

subsection \<open>The output text\<close>

lemma output_invariant:
  assumes "final_state (loop fs no_br [0..<length ls] (init_state ls)) = Some s"
  shows "output_content s = concat (map chunk (trace s))"
proof -
  let ?I = "\<lambda>j t. agrees ls j t \<and> output_content t = concat (map chunk (trace t))"
  have "\<exists>j. 0 \<le> j \<and> j \<le> length ls \<and> ?I j s
          \<and> (loop fs no_br [0..<length ls] (init_state ls) = Completed s \<longrightarrow> j = length ls)"
  proof (rule loop_invariant [where I = ?I, OF _ _ _ assms])
    show "?I 0 (init_state ls)"
      by (simp add: agrees_init) (simp add: init_state_def)
    show "0 \<le> length ls" by simp
    fix j t t'
    assume j: "j < length ls" and I: "?I j t" and step: "step fs no_br j t = Inr t'"
    then have ag: "agrees ls j t" by simp
    have ag': "agrees ls (Suc j) t'"
      using ag j step by (rule agrees_step)
    show "?I (Suc j) t'"
    proof (cases "lines_to_skip t")
      case (Suc k)
      then have "t' = t\<lparr>lines_to_skip := k, trace := trace t @ [Skipped]\<rparr>"
        using step by (simp add: step_skipping)
      then show ?thesis
        using ag' I by simp
    next
      case 0
      have "j < length (lines t)"
        using ag j agrees_length by simp
      from step_processing(4) [OF 0 step this] show ?thesis
        using ag' I by auto
    qed
  qed
  then show ?thesis by blast
qed

text \<open>
  C4, as the program has it. The text that an iteration adds to the output is the tabs
  of the target indentation, then the content as rewritten, then one newline, and the
  output file is these texts in the order of the lines. So every text added ends with a
  newline; the content in front of it can end with a newline of its own.
\<close>

theorem output_is_tabs_content_newline:
  assumes "completed (export_file_to_folder fs text no_br)"
  shows "written (export_file_to_folder fs text no_br)
           = Some (concat (map chunk (run_trace fs text no_br)))
         \<and> (\<forall>e \<in> set (run_trace fs text no_br). emits e \<longrightarrow>
               (\<exists>b t body. e = Processed b t (Some body)
                  \<and> chunk e = replicate (nat t) TAB @ (body @ [NL])))"
proof (cases rule: run_cases [of fs "text" no_br])
  case failed
  with assms show ?thesis by simp
next
  case (ran ls s)
  from assms ran(3,4) have "export_file_to_folder fs text no_br = Completed s"
    by (cases "loop fs no_br [0..<length ls] (init_state ls)") simp_all
  moreover have "output_content s = concat (map chunk (trace s))"
    using ran(4) by (rule output_invariant)
  moreover have "\<exists>b t body. e = Processed b t (Some body)
                   \<and> chunk e = replicate (nat t) TAB @ (body @ [NL])" if "emits e" for e
    using that by (cases e rule: emits.cases) simp_all
  ultimately show ?thesis
    using ran(5) by simp
qed

theorem output_is_tabs_content_newline_witness:
  "completed (export_file_to_folder (\<lambda>d f. True) ''-\<newline>'' False)
   \<and> written (export_file_to_folder (\<lambda>d f. True) ''-\<newline>'' False)
       = Some (concat (map chunk (run_trace (\<lambda>d f. True) ''-\<newline>'' False)))
   \<and> run_trace (\<lambda>d f. True) ''-\<newline>'' False = [Processed False 0 (Some ''<br>\<newline>'')]"
proof -
  have h: "completed (export_file_to_folder (\<lambda>d f. True) ''-\<newline>'' False)" by code_simp
  have t: "run_trace (\<lambda>d f. True) ''-\<newline>'' False = [Processed False 0 (Some ''<br>\<newline>'')]"
    by code_simp
  show ?thesis
    using output_is_tabs_content_newline [OF h] h t by simp
qed

text \<open>
  The one-line document \<open>-\n\<close> is an Empty line: its text is \<open><br>\n\<close> and the newline
  added at the end, so the text added to the output ends with two newlines.
\<close>

theorem empty_line_two_newlines_counterexample:
  "map chunk (run_trace (\<lambda>d f. True) ''-\<newline>'' False) = [''<br>\<newline>\<newline>'']
   \<and> \<not> ends_with_exactly_one_newline ''<br>\<newline>\<newline>''
   \<and> written (export_file_to_folder (\<lambda>d f. True) ''-\<newline>'' False)
     = Some ''<br>\<newline>\<newline>''"
  by code_simp

subsection \<open>Lines inside a code block\<close>

lemma verbatim_invariant:
  assumes "final_state (loop fs no_br [0..<length ls] (init_state ls)) = Some s"
  shows "\<forall>m < length (trace s). verbatim_ok ls m (trace s ! m)"
proof -
  let ?I = "\<lambda>j t. agrees ls j t \<and> (\<forall>m < j. verbatim_ok ls m (trace t ! m))"
  have "\<exists>j. 0 \<le> j \<and> j \<le> length ls \<and> ?I j s
          \<and> (loop fs no_br [0..<length ls] (init_state ls) = Completed s \<longrightarrow> j = length ls)"
  proof (rule loop_invariant [where I = ?I, OF _ _ _ assms])
    show "?I 0 (init_state ls)"
      by (simp add: agrees_init)
    show "0 \<le> length ls" by simp
    fix j t t'
    assume j: "j < length ls" and I: "?I j t" and step: "step fs no_br j t = Inr t'"
    then have ag: "agrees ls j t" and len: "length (trace t) = j"
      by (simp_all add: agrees_def)
    have ag': "agrees ls (Suc j) t'"
      using ag j step by (rule agrees_step)
    have "verbatim_ok ls j (trace t' ! j)"
    proof (cases "lines_to_skip t")
      case (Suc k)
      then have "t' = t\<lparr>lines_to_skip := k, trace := trace t @ [Skipped]\<rparr>"
        using step by (simp add: step_skipping)
      then show ?thesis
        using len by (simp add: verbatim_ok_def nth_append)
    next
      case 0
      have "j < length (lines t)"
        using ag j agrees_length by simp
      from step_processing(4) [OF 0 step this] agrees_nth(1) [OF ag j] len
      show ?thesis
        by (auto simp: verbatim_ok_def after_directives_def)
    qed
    moreover have "trace t' ! m = trace t ! m" if "m < j" for m
    proof (cases "lines_to_skip t")
      case (Suc k)
      then have "t' = t\<lparr>lines_to_skip := k, trace := trace t @ [Skipped]\<rparr>"
        using step by (simp add: step_skipping)
      then show ?thesis
        using len that by (simp add: nth_append)
    next
      case 0
      have "j < length (lines t)"
        using ag j agrees_length by simp
      from step_processing(4) [OF 0 step this] len that
      show ?thesis
        by (auto simp: nth_append)
    qed
    ultimately have "verbatim_ok ls m (trace t' ! m)" if "m < Suc j" for m
      using that I by (cases "m = j") simp_all
    then show "?I (Suc j) t'"
      using ag' by simp
  qed
  then obtain j where "agrees ls j s" "\<forall>m < j. verbatim_ok ls m (trace s ! m)"
    by blast
  then show ?thesis
    by (simp add: agrees_def)
qed

text \<open>
  C2, as the program has it. While the code-block flag is set, the text of a line is its
  content without the first two characters, where the content is what the directive
  chain left: a line that is no fence marker and holds an asset reference, a drawio
  renderer or a task marker is rewritten first, also inside a code block. For a fence
  marker and for a line on which no directive matches this is the content as read.
\<close>

theorem code_block_line_after_directives:
  assumes "m < length (run_trace fs text no_br)"
    and "run_trace fs text no_br ! m = Processed True tg c"
  shows "c = Some (drop 2 (rewritten (parsed text ! m)))
         \<and> (directive_of (parsed text ! m) = Keep \<or> directive_of (parsed text ! m) = Toggle
              \<longrightarrow> c = Some (drop 2 (li_content (parsed text ! m))))"
proof (cases rule: run_cases [of fs "text" no_br])
  case failed
  with assms show ?thesis by simp
next
  case (ran ls s)
  have "verbatim_ok ls m (trace s ! m)"
    using verbatim_invariant [OF ran(4)] assms(1) ran(5) by simp
  then have "c = Some (drop 2 (rewritten (parsed text ! m)))"
    using assms(2) ran(2,5) by (simp add: verbatim_ok_def)
  then show ?thesis
    by (auto simp: rewritten_def)
qed

theorem code_block_line_after_directives_witness:
  "1 < length (run_trace (\<lambda>d f. True) ''- ```\<newline>  x = 1\<newline>  ```\<newline>'' False)
   \<and> run_trace (\<lambda>d f. True) ''- ```\<newline>  x = 1\<newline>  ```\<newline>'' False ! 1
       = Processed True 0 (Some ''x = 1'')
   \<and> directive_of (parsed ''- ```\<newline>  x = 1\<newline>  ```\<newline>'' ! 1) = Keep
   \<and> Some ''x = 1'' = Some (drop 2 (li_content (parsed ''- ```\<newline>  x = 1\<newline>  ```\<newline>'' ! 1)))"
proof -
  let ?D = "''- ```\<newline>  x = 1\<newline>  ```\<newline>''"
  have h1: "1 < length (run_trace (\<lambda>d f. True) ?D False)" by code_simp
  have h2: "run_trace (\<lambda>d f. True) ?D False ! 1 = Processed True 0 (Some ''x = 1'')"
    by code_simp
  have h3: "directive_of (parsed ?D ! 1) = Keep" by code_simp
  from code_block_line_after_directives [OF h1 h2] h1 h2 h3 show ?thesis
    by blast
qed

text \<open>
  An asset reference between two fence markers: the asset is requested and the link is
  rewritten before the first two characters are removed.
\<close>

theorem code_block_asset_counterexample:
  "map li_type (parsed ''- ```\<newline>  ![x](../assets/img.png)\<newline>  ```\<newline>'')
     = [CODE_BLOCK_MARKER, TEXT, CODE_BLOCK_MARKER]
   \<and> run_trace (\<lambda>d f. True) ''- ```\<newline>  ![x](../assets/img.png)\<newline>  ```\<newline>'' False
     = [Processed True 0 (Some ''```''), Processed True 0 (Some ''![x](assets/img.png)''),
        Processed False 0 (Some ''```'')]
   \<and> ''![x](assets/img.png)'' \<noteq> drop 2 ''  ![x](../assets/img.png)''
   \<and> copied (export_file_to_folder (\<lambda>d f. True)
        ''- ```\<newline>  ![x](../assets/img.png)\<newline>  ```\<newline>'' False)
     = [(''img.png'', [])]"
  by code_simp

subsection \<open>The code-block flag\<close>

lemma zip_snoc:
  "length tr < length ls \<Longrightarrow> zip ls (tr @ [e]) = zip ls tr @ [(ls ! length tr, e)]"
proof (induction tr arbitrary: ls)
  case Nil
  then show ?case by (cases ls) simp_all
next
  case (Cons a tr)
  then show ?case by (cases ls) simp_all
qed

lemma processed_markers_snoc:
  assumes "length tr < length ls"
  shows "processed_markers ls (tr @ [e]) =
           processed_markers ls tr
           + (if e \<noteq> Skipped \<and> li_type (ls ! length tr) = CODE_BLOCK_MARKER then 1 else 0)"
  using assms by (simp add: processed_markers_def zip_snoc)

lemma flag_invariant:
  assumes "final_state (loop fs no_br [0..<length ls] (init_state ls)) = Some s"
  shows "traversing_code_block s = odd (processed_markers ls (trace s))"
proof -
  let ?I = "\<lambda>j t. agrees ls j t
                \<and> traversing_code_block t = odd (processed_markers ls (trace t))"
  have "\<exists>j. 0 \<le> j \<and> j \<le> length ls \<and> ?I j s
          \<and> (loop fs no_br [0..<length ls] (init_state ls) = Completed s \<longrightarrow> j = length ls)"
  proof (rule loop_invariant [where I = ?I, OF _ _ _ assms])
    show "?I 0 (init_state ls)"
      by (simp add: agrees_init) (simp add: init_state_def processed_markers_def)
    show "0 \<le> length ls" by simp
    fix j t t'
    assume j: "j < length ls" and I: "?I j t" and step: "step fs no_br j t = Inr t'"
    then have ag: "agrees ls j t" and len: "length (trace t) = j"
      by (simp_all add: agrees_def)
    have ag': "agrees ls (Suc j) t'"
      using ag j step by (rule agrees_step)
    have "traversing_code_block t' = odd (processed_markers ls (trace t'))"
    proof (cases "lines_to_skip t")
      case (Suc k)
      then have "t' = t\<lparr>lines_to_skip := k, trace := trace t @ [Skipped]\<rparr>"
        using step by (simp add: step_skipping)
      then show ?thesis
        using I j len by (simp add: processed_markers_snoc)
    next
      case 0
      have "j < length (lines t)"
        using ag j agrees_length by simp
      note st = step_processing [OF 0 step this]
      from st(4) obtain tg body where
        "trace t' = trace t @ [Processed (flip (traversing_code_block t) (lines t ! j)) tg body]"
        by blast
      then show ?thesis
        using I j len st(2) agrees_nth(1) [OF ag j]
        by (simp add: processed_markers_snoc flip_def)
    qed
    then show "?I (Suc j) t'"
      using ag' by simp
  qed
  then show ?thesis by blast
qed

text \<open>
  C9, as the program has it. The flag flips on the fence markers that the loop
  processes; a fence marker inside a skipped metadata block is not looked at. When the
  number of processed markers is even, the flag is false after the last line.
\<close>

theorem flag_false_after_even_processed_markers:
  assumes "completed (export_file_to_folder fs text no_br)"
    and "even (processed_markers (parsed text) (run_trace fs text no_br))"
  shows "map_option traversing_code_block (final_state (export_file_to_folder fs text no_br))
           = Some False"
proof (cases rule: run_cases [of fs "text" no_br])
  case failed
  with assms show ?thesis by simp
next
  case (ran ls s)
  have "traversing_code_block s = odd (processed_markers ls (trace s))"
    using ran(4) by (rule flag_invariant)
  then show ?thesis
    using assms(2) ran by simp
qed

theorem flag_false_after_even_processed_markers_witness:
  "completed (export_file_to_folder (\<lambda>d f. True) ''- ```\<newline>  x = 1\<newline>  ```\<newline>'' False)
   \<and> processed_markers (parsed ''- ```\<newline>  x = 1\<newline>  ```\<newline>'')
        (run_trace (\<lambda>d f. True) ''- ```\<newline>  x = 1\<newline>  ```\<newline>'' False) = 2
   \<and> map_option traversing_code_block
        (final_state (export_file_to_folder (\<lambda>d f. True) ''- ```\<newline>  x = 1\<newline>  ```\<newline>'' False))
       = Some False"
proof -
  let ?D = "''- ```\<newline>  x = 1\<newline>  ```\<newline>''"
  have h1: "completed (export_file_to_folder (\<lambda>d f. True) ?D False)" by code_simp
  have n: "processed_markers (parsed ?D) (run_trace (\<lambda>d f. True) ?D False) = 2" by code_simp
  then have h2: "even (processed_markers (parsed ?D) (run_trace (\<lambda>d f. True) ?D False))"
    by simp
  from flag_false_after_even_processed_markers [OF h1 h2] h1 n show ?thesis
    by blast
qed

text \<open>
  Two fence markers, the first inside a metadata block: the loop skips it, flips the
  flag once, and the flag is true after the last line.
\<close>

theorem skipped_marker_counterexample:
  "map li_type (parsed ''- a\<newline>  :LOGBOOK:\<newline>  ```\<newline>  :END:\<newline>- ```\<newline>'')
     = [LIST, TEXT, CODE_BLOCK_MARKER, TEXT, CODE_BLOCK_MARKER]
   \<and> markers (parsed ''- a\<newline>  :LOGBOOK:\<newline>  ```\<newline>  :END:\<newline>- ```\<newline>'') = 2
   \<and> completed (export_file_to_folder (\<lambda>d f. True)
        ''- a\<newline>  :LOGBOOK:\<newline>  ```\<newline>  :END:\<newline>- ```\<newline>'' False)
   \<and> map_option traversing_code_block (final_state (export_file_to_folder (\<lambda>d f. True)
        ''- a\<newline>  :LOGBOOK:\<newline>  ```\<newline>  :END:\<newline>- ```\<newline>'' False))
     = Some True"
  by code_simp

text \<open>When no iteration is skipped, the processed markers are all the markers.\<close>

lemma zip_filter_fst:
  "length ls = length tr \<Longrightarrow> \<forall>e \<in> set tr. Q e
   \<Longrightarrow> length (filter (\<lambda>(l, e). Q e \<and> P l) (zip ls tr)) = length (filter P ls)"
  by (induction ls tr rule: list_induct2) simp_all

lemma all_processed_markers:
  assumes "completed (export_file_to_folder fs text no_br)"
    and "Skipped \<notin> set (run_trace fs text no_br)"
  shows "processed_markers (parsed text) (run_trace fs text no_br) = markers (parsed text)"
proof (cases rule: run_cases [of fs "text" no_br])
  case failed
  with assms show ?thesis by simp
next
  case (ran ls s)
  from assms(1) ran(3,4) have fin: "loop fs no_br [0..<length ls] (init_state ls) = Completed s"
    by (cases "loop fs no_br [0..<length ls] (init_state ls)") simp_all
  have "\<exists>j. 0 \<le> j \<and> j \<le> length ls \<and> agrees ls j s
          \<and> (loop fs no_br [0..<length ls] (init_state ls) = Completed s \<longrightarrow> j = length ls)"
    by (rule loop_invariant [where I = "agrees ls", OF agrees_init _ _ ran(4)])
       (simp_all add: agrees_step)
  with fin have "length ls = length (trace s)"
    by (auto simp: agrees_def)
  moreover have "\<forall>e \<in> set (trace s). e \<noteq> Skipped"
    using assms(2) ran(5) by auto
  ultimately show ?thesis
    using zip_filter_fst [of ls "trace s" "\<lambda>e. e \<noteq> Skipped" "\<lambda>l. li_type l = CODE_BLOCK_MARKER"]
    by (simp add: processed_markers_def markers_def ran(2,5))
qed

subsection \<open>The stored content\<close>

text \<open>
  In every run, a line that the loop processed holds the content that the directive
  chain gives it, and is otherwise as it was parsed.
\<close>

lemma processed_lines_rewritten:
  assumes "final_state (loop fs no_br [0..<length ls] (init_state ls)) = Some s"
  shows "\<forall>m < length (trace s). trace s ! m \<noteq> Skipped
           \<longrightarrow> lines s ! m = after_directives (ls ! m)"
proof -
  let ?I = "\<lambda>j t. agrees ls j t
     \<and> (\<forall>m < j. trace t ! m \<noteq> Skipped \<longrightarrow> lines t ! m = after_directives (ls ! m))"
  have "\<exists>j. 0 \<le> j \<and> j \<le> length ls \<and> ?I j s
          \<and> (loop fs no_br [0..<length ls] (init_state ls) = Completed s \<longrightarrow> j = length ls)"
  proof (rule loop_invariant [where I = ?I, OF _ _ _ assms])
    show "?I 0 (init_state ls)"
      by (simp add: agrees_init)
    show "0 \<le> length ls" by simp
    fix j t t'
    assume j: "j < length ls" and I: "?I j t" and step: "step fs no_br j t = Inr t'"
    then have ag: "agrees ls j t" and len: "length (trace t) = j"
      by (simp_all add: agrees_def)
    have ag': "agrees ls (Suc j) t'"
      using ag j step by (rule agrees_step)
    have lenl: "j < length (lines t)"
      using ag j agrees_length by simp
    have "lines t' ! m = after_directives (ls ! m)"
      if "m < Suc j" and "trace t' ! m \<noteq> Skipped" for m
    proof (cases "lines_to_skip t")
      case (Suc k)
      then have t': "t' = t\<lparr>lines_to_skip := k, trace := trace t @ [Skipped]\<rparr>"
        using step by (simp add: step_skipping)
      from that len have "m < j" and "trace t ! m \<noteq> Skipped"
        by (cases "m = j"; simp add: t' nth_append)+
      with I show ?thesis
        by (simp add: t')
    next
      case 0
      note st = step_processing [OF 0 step lenl]
      show ?thesis
      proof (cases "m = j")
        case True
        then show ?thesis
          using lenl agrees_nth(1) [OF ag j] by (simp add: st(1))
      next
        case False
        with that(1) have m: "m < j" by simp
        from st(4) len m have "trace t' ! m = trace t ! m"
          by (auto simp: nth_append)
        with that(2) I m have "lines t ! m = after_directives (ls ! m)"
          by simp
        then show ?thesis
          using False by (simp add: st(1))
      qed
    qed
    then show "?I (Suc j) t'"
      using ag' by simp
  qed
  then obtain j where "agrees ls j s"
    "\<forall>m < j. trace s ! m \<noteq> Skipped \<longrightarrow> lines s ! m = after_directives (ls ! m)"
    by blast
  then show ?thesis
    by (simp add: agrees_def)
qed

subsection \<open>Which lines add text to the output\<close>

lemma count_until_end_takeWhile:
  "count_until_end ls = length (takeWhile (\<lambda>x. \<not> has_end x) ls)"
  by (induction ls) (simp_all add: has_end_def)

lemma opens_block_iff: "opens_block b l \<longleftrightarrow> logbook_line b l \<and> \<not> collapsed_line b l"
  by (auto simp: opens_block_def logbook_line_def collapsed_line_def)

lemma drops_line_iff: "drops_line b l \<longleftrightarrow> collapsed_line b l \<or> logbook_line b l"
  by (auto simp: drops_line_def logbook_line_def collapsed_line_def)

lemma emits_Processed: "emits (Processed b t body) \<longleftrightarrow> body \<noteq> None"
  by (cases body) simp_all

text \<open>
  The skip counter against the block of lines: with \<open>k\<close> on the counter, the next \<open>k\<close>
  lines add nothing, and the lines after them are treated as \<open>kept\<close> says.
\<close>

lemma emitted_invariant:
  assumes "loop fs no_br [0..<length ls] (init_state ls) = Completed s"
  shows "map emits (trace s) = kept False ls"
proof -
  let ?n = "length ls"
  let ?I = "\<lambda>j t. agrees ls j t
     \<and> map emits (trace t) @ replicate (min (lines_to_skip t) (?n - j)) False
         @ kept (traversing_code_block t) (drop (j + lines_to_skip t) ls) = kept False ls"
  have fin: "final_state (loop fs no_br [0..<?n] (init_state ls)) = Some s"
    using assms by simp
  have "\<exists>j. 0 \<le> j \<and> j \<le> ?n \<and> ?I j s
          \<and> (loop fs no_br [0..<?n] (init_state ls) = Completed s \<longrightarrow> j = ?n)"
  proof (rule loop_invariant [where I = ?I, OF _ _ _ fin])
    show "?I 0 (init_state ls)"
      by (simp add: agrees_init) (simp add: init_state_def)
    show "0 \<le> ?n" by simp
    fix j t t'
    assume j: "j < ?n" and I: "?I j t" and step: "step fs no_br j t = Inr t'"
    then have ag: "agrees ls j t" by simp
    have ag': "agrees ls (Suc j) t'"
      using ag j step by (rule agrees_step)
    have "map emits (trace t') @ replicate (min (lines_to_skip t') (?n - Suc j)) False
            @ kept (traversing_code_block t') (drop (Suc j + lines_to_skip t') ls)
          = kept False ls"
    proof (cases "lines_to_skip t")
      case (Suc k)
      then have t': "t' = t\<lparr>lines_to_skip := k, trace := trace t @ [Skipped]\<rparr>"
        using step by (simp add: step_skipping)
      have "min (Suc k) (?n - j) = Suc (min k (?n - Suc j))"
        using j by simp
      then show ?thesis
        using I Suc by (simp add: t')
    next
      case 0
      have "j < length (lines t)"
        using ag j agrees_length by simp
      note st = step_processing [OF 0 step this]
      define l where "l = ls ! j"
      define rest where "rest = drop (Suc j) ls"
      define b' where "b' = flip (traversing_code_block t) l"
      define l' where "l' = after_directives l"
      have at: "lines t ! j = l" and after: "drop (Suc j) (lines t) = rest"
        using agrees_nth [OF ag j] by (simp_all add: l_def rest_def)
      have split: "drop j ls = l # rest"
        using j by (simp add: l_def rest_def Cons_nth_drop_Suc)
      have len: "length rest = ?n - Suc j"
        by (simp add: rest_def)
      have flag: "traversing_code_block t' = b'"
        using st(2) by (simp add: at b'_def)
      have skip: "lines_to_skip t' = (if opens_block b' l' then count_until_end (l' # rest) else 0)"
        using st(3) by (simp add: at after b'_def l'_def)
      from st(4) obtain tg body where
        tr: "trace t' = trace t @ [Processed b' tg body]" and
        body: "body = None \<longleftrightarrow> drops_line b' l'"
        unfolding at b'_def l'_def by blast
      from I 0 have before: "map emits (trace t) @ kept (traversing_code_block t) (l # rest)
                             = kept False ls"
        by (simp add: split)
      consider (collapsed) "collapsed_line b' l'"
        | (block) "\<not> collapsed_line b' l'" "logbook_line b' l'"
        | (keep) "\<not> collapsed_line b' l'" "\<not> logbook_line b' l'"
        by blast
      then show ?thesis
      proof cases
        case collapsed
        have k: "lines_to_skip t' = 0"
          using collapsed by (simp add: skip opens_block_iff)
        have "kept (traversing_code_block t) (l # rest) = False # kept b' rest"
          using collapsed by (simp add: Let_def b'_def l'_def)
        moreover have "body = None"
          using collapsed body by (simp add: drops_line_iff)
        ultimately show ?thesis
          using before by (simp add: tr flag k rest_def)
      next
        case block
        let ?k = "length (takeWhile (\<lambda>x. \<not> has_end x) (l' # rest))"
        have k: "lines_to_skip t' = ?k"
          using block by (simp add: skip opens_block_iff count_until_end_takeWhile)
        have "kept (traversing_code_block t) (l # rest)
                = False # replicate (min ?k (length rest)) False @ kept b' (drop ?k rest)"
          using block by (simp add: Let_def b'_def l'_def)
        moreover have "drop ?k rest = drop (Suc j + ?k) ls"
          by (simp add: rest_def add.commute)
        moreover have "body = None"
          using block body by (simp add: drops_line_iff)
        ultimately show ?thesis
          using before by (simp add: tr flag k len)
      next
        case keep
        have k: "lines_to_skip t' = 0"
          using keep by (simp add: skip opens_block_iff)
        have "kept (traversing_code_block t) (l # rest) = True # kept b' rest"
          using keep by (simp add: Let_def b'_def l'_def)
        moreover have "emits (Processed b' tg body)"
          using keep body by (simp add: emits_Processed drops_line_iff)
        ultimately show ?thesis
          using before by (simp add: tr flag k rest_def)
      qed
    qed
    then show "?I (Suc j) t'"
      using ag' by simp
  qed
  then have "?I ?n s"
    using assms by blast
  then show ?thesis by simp
qed

text \<open>
  C8, as the program has it. In a run that completes, line by line and in the order of
  the input, for a Text line outside a code block and its content as the directive chain
  left it: if the content contains \<open>collapsed:: true\<close>, the line adds nothing to the
  output and opens no block, whether or not it contains \<open>:LOGBOOK:\<close> too; otherwise, if
  the content contains \<open>:LOGBOOK:\<close>, the line adds nothing, and neither do the lines
  after it up to and including the first line that contains \<open>:END:\<close>, the search
  starting at the \<open>:LOGBOOK:\<close> line itself (so only that line is dropped when it contains
  \<open>:END:\<close> too, and all remaining lines when no line does). Every other line adds exactly
  one text, and the output file is these texts in the order of the lines.
\<close>

theorem emitted_lines_follow_metadata_rule:
  assumes "completed (export_file_to_folder fs text no_br)"
  shows "map emits (run_trace fs text no_br) = kept False (parsed text)
         \<and> written (export_file_to_folder fs text no_br)
             = Some (concat (map chunk (run_trace fs text no_br)))"
proof (cases rule: run_cases [of fs "text" no_br])
  case failed
  with assms show ?thesis by simp
next
  case (ran ls s)
  from assms ran(3,4) have fin: "loop fs no_br [0..<length ls] (init_state ls) = Completed s"
    by (cases "loop fs no_br [0..<length ls] (init_state ls)") simp_all
  have "map emits (trace s) = kept False ls"
    using fin by (rule emitted_invariant)
  moreover have "output_content s = concat (map chunk (trace s))"
    using ran(4) by (rule output_invariant)
  ultimately show ?thesis
    using ran(2,3,5) fin by simp
qed

theorem emitted_lines_follow_metadata_rule_witness:
  "completed (export_file_to_folder (\<lambda>d f. True)
     ''- a\<newline>  collapsed:: true\<newline>  :LOGBOOK:\<newline>  CLOCK: 1\<newline>  :END:\<newline>- b\<newline>'' False)
   \<and> map emits (run_trace (\<lambda>d f. True)
     ''- a\<newline>  collapsed:: true\<newline>  :LOGBOOK:\<newline>  CLOCK: 1\<newline>  :END:\<newline>- b\<newline>'' False)
       = kept False (parsed
     ''- a\<newline>  collapsed:: true\<newline>  :LOGBOOK:\<newline>  CLOCK: 1\<newline>  :END:\<newline>- b\<newline>'')
   \<and> kept False (parsed
     ''- a\<newline>  collapsed:: true\<newline>  :LOGBOOK:\<newline>  CLOCK: 1\<newline>  :END:\<newline>- b\<newline>'')
       = [True, False, False, False, False, True]
   \<and> written (export_file_to_folder (\<lambda>d f. True)
     ''- a\<newline>  collapsed:: true\<newline>  :LOGBOOK:\<newline>  CLOCK: 1\<newline>  :END:\<newline>- b\<newline>'' False)
       = Some (''a'' @ [BACKSLASH] @ ''\<newline>b\<newline>'')"
proof -
  let ?D = "''- a\<newline>  collapsed:: true\<newline>  :LOGBOOK:\<newline>  CLOCK: 1\<newline>  :END:\<newline>- b\<newline>''"
  have h: "completed (export_file_to_folder (\<lambda>d f. True) ?D False)" by code_simp
  have k: "kept False (parsed ?D) = [True, False, False, False, False, True]" by code_simp
  have w: "written (export_file_to_folder (\<lambda>d f. True) ?D False)
             = Some (''a'' @ [BACKSLASH] @ ''\<newline>b\<newline>'')"
    by code_simp
  from emitted_lines_follow_metadata_rule [OF h] h k w show ?thesis
    by blast
qed

text \<open>
  Two documents on which the rule as stated and the program differ. A \<open>:LOGBOOK:\<close> line
  that contains \<open>:END:\<close> itself: the two lines that follow it, up to the next \<open>:END:\<close>
  line, still add their text. A line that contains \<open>collapsed:: true\<close> and \<open>:LOGBOOK:\<close>:
  only that line is dropped, and the two lines up to \<open>:END:\<close> add their text.
\<close>

theorem logbook_end_same_line_counterexample:
  "map li_type (parsed ''- a\<newline>  :LOGBOOK: :END:\<newline>  b\<newline>  :END:\<newline>'')
     = [LIST, TEXT, TEXT, TEXT]
   \<and> kept_as_stated False (parsed ''- a\<newline>  :LOGBOOK: :END:\<newline>  b\<newline>  :END:\<newline>'')
     = [True, False, False, False]
   \<and> map emits (run_trace (\<lambda>d f. True)
        ''- a\<newline>  :LOGBOOK: :END:\<newline>  b\<newline>  :END:\<newline>'' False)
     = [True, False, True, True]
   \<and> written (export_file_to_folder (\<lambda>d f. True)
        ''- a\<newline>  :LOGBOOK: :END:\<newline>  b\<newline>  :END:\<newline>'' False)
     \<noteq> None
   \<and> map li_type (parsed ''- a\<newline>  collapsed:: true :LOGBOOK:\<newline>  b\<newline>  :END:\<newline>'')
     = [LIST, TEXT, TEXT, TEXT]
   \<and> kept_as_stated False
        (parsed ''- a\<newline>  collapsed:: true :LOGBOOK:\<newline>  b\<newline>  :END:\<newline>'')
     = [True, False, False, False]
   \<and> map emits (run_trace (\<lambda>d f. True)
        ''- a\<newline>  collapsed:: true :LOGBOOK:\<newline>  b\<newline>  :END:\<newline>'' False)
     = [True, False, True, True]
   \<and> written (export_file_to_folder (\<lambda>d f. True)
        ''- a\<newline>  collapsed:: true :LOGBOOK:\<newline>  b\<newline>  :END:\<newline>'' False)
     \<noteq> None"
  by code_simp

end
